theory Spec2Isabelle
  imports Main "HOL-Library.Sublist"
begin

section \<open>JavaScript values, exceptions and promise states\<close>

text \<open>
  The values that flow through \<^verbatim>\<open>lib/connection.js\<close>: keys, protocol lines, the
  accumulated reply \<^verbatim>\<open>this.data\<close> and what the futures resolve to. The only arrays
  the file builds are arrays of strings (the host list of \<^verbatim>\<open>autodiscovery\<close>).
\<close>

datatype jsval = Undefined | Null | Bool bool | Num int | Str string | StrArr "string list"

datatype error = AssertionError string | TypeError string | Error string

text \<open>A promise is pending until it is settled once: fulfilled with a value or rejected.\<close>

datatype outcome = Fulfilled jsval | Rejected error

definition crlf :: string where
  "crlf = [CHR 0x0D, CHR 0x0A]"

fun show_nat :: "nat \<Rightarrow> string" where
  "show_nat n = (if n < 10 then [''0123456789'' ! n]
                 else show_nat (n div 10) @ [''0123456789'' ! (n mod 10)])"

declare show_nat.simps [simp del]

definition show_int :: "int \<Rightarrow> string" where
  "show_int i = (if i < 0 then CHR ''-'' # show_nat (nat (- i)) else show_nat (nat i))"

fun join :: "string \<Rightarrow> string list \<Rightarrow> string" where
  "join sep [] = []"
| "join sep [x] = x"
| "join sep (x # y # ys) = x @ sep @ join sep (y # ys)"

text \<open>\<^verbatim>\<open>typeof v === 'string'\<close>\<close>

fun is_string :: "jsval \<Rightarrow> bool" where
  "is_string (Str s) = True"
| "is_string v = False"

text \<open>
  \<^verbatim>\<open>v.toString()\<close>: a property access on \<^verbatim>\<open>undefined\<close> or \<^verbatim>\<open>null\<close> throws a
  TypeError; a string is returned as it is.
\<close>

fun toString :: "jsval \<Rightarrow> error + string" where
  "toString Undefined = Inl (TypeError ''Cannot read property toString of undefined'')"
| "toString Null = Inl (TypeError ''Cannot read property toString of null'')"
| "toString (Bool b) = Inr (if b then ''true'' else ''false'')"
| "toString (Num n) = Inr (show_int n)"
| "toString (Str s) = Inr s"
| "toString (StrArr xs) = Inr (join '','' xs)"

text \<open>The condition of \<^verbatim>\<open>if (v)\<close>.\<close>

fun truthy :: "jsval \<Rightarrow> bool" where
  "truthy Undefined = False"
| "truthy Null = False"
| "truthy (Bool b) = b"
| "truthy (Num n) = (n \<noteq> 0)"
| "truthy (Str s) = (s \<noteq> [])"
| "truthy (StrArr xs) = True"

text \<open>\<^verbatim>\<open>s.split(c)\<close> for a one-character separator: empty fields are kept, and the
  empty string splits into one empty field.\<close>

fun split :: "char \<Rightarrow> string \<Rightarrow> string list" where
  "split c [] = [[]]"
| "split c (x # xs) =
     (if x = c then [] # split c xs
      else (case split c xs of [] \<Rightarrow> [[x]] | w # ws \<Rightarrow> (x # w) # ws))"

text \<open>\<^verbatim>\<open>a[i]\<close> on an array: \<^verbatim>\<open>undefined\<close> (here \<open>None\<close>) out of range.\<close>

definition index :: "'a list \<Rightarrow> nat \<Rightarrow> 'a option" where
  "index xs i = (if i < length xs then Some (xs ! i) else None)"

text \<open>What \<^verbatim>\<open>util.format\<close> prints for a \<^verbatim>\<open>%s\<close> argument.\<close>

fun fmt_s :: "string option \<Rightarrow> string" where
  "fmt_s None = ''undefined''"
| "fmt_s (Some s) = s"

section \<open>The connection\<close>

text \<open>
  \<^verbatim>\<open>misc.defer(key)\<close> makes a fresh deferred object carrying \<open>key\<close>. Its identity is
  the number \<open>ident\<close>, taken from an allocation counter; \<open>kind\<close> records which
  \<^verbatim>\<open>.then\<close> continuation the command API chained to its promise.
\<close>

datatype kind = KSet | KGet | KDelete | KAutodiscovery

record deferred =
  key :: string
  ident :: nat
  kind :: kind

text \<open>The calls a user (or the \<^verbatim>\<open>onConnect\<close> callback) makes on the command API.\<close>

datatype call =
    CSet jsval jsval "int option"
  | CGet string
  | CDelete string
  | CAutodiscovery

text \<open>
  The receiver \<^verbatim>\<open>this\<close> of an event listener, as far as the listeners of this file
  use it: the properties \<^verbatim>\<open>ready\<close> and \<^verbatim>\<open>backoff\<close>, \<open>None\<close> for a property the
  object does not have (\<^verbatim>\<open>undefined\<close>). The socket \<^verbatim>\<open>this.client\<close> is the chunks
  handed to \<^verbatim>\<open>client.write\<close>, in order, whether \<^verbatim>\<open>client.end()\<close> was called, and
  these properties, which a fresh socket does not have.
\<close>

record receiver =
  ready_prop :: "bool option"
  backoff_prop :: "int option"

record socket =
  written :: "string list"
  ended :: bool
  props :: receiver

record opts =
  o_host :: "string option"
  o_port :: "string option"
  o_reconnect :: "bool option"
  o_onConnect :: "call list option"
  o_backoff :: "int option"

record conn =
  host :: string
  port :: string
  queue :: "deferred list"
  onConnect :: "call list option"
  reconnect :: bool
  disconnecting :: bool
  ready :: bool
  backoff :: int
  data :: jsval
  writeBuffer :: "string list option"
  client :: socket
  next_ident :: nat

definition net_connect :: socket where
  "net_connect =
     \<lparr>written = [], ended = False, props = \<lparr>ready_prop = None, backoff_prop = None\<rparr>\<rparr>"

text \<open>
  The constructor: defaults for \<open>host\<close>, \<open>port\<close> and \<open>reconnect\<close>;
  \<^verbatim>\<open>opts.backoff || 10\<close> (so \<open>0\<close> counts as absent); \<^verbatim>\<open>this.data\<close> and
  \<^verbatim>\<open>this.writeBuffer\<close> are not initialised.
\<close>

definition Connection :: "opts \<Rightarrow> conn" where
  "Connection os =
     \<lparr>host = (case o_host os of None \<Rightarrow> ''localhost'' | Some h \<Rightarrow> h),
      port = (case o_port os of None \<Rightarrow> ''11211'' | Some p \<Rightarrow> p),
      queue = [],
      onConnect = o_onConnect os,
      reconnect = (case o_reconnect os of None \<Rightarrow> True | Some r \<Rightarrow> r),
      disconnecting = False,
      ready = False,
      backoff = (case o_backoff os of None \<Rightarrow> 10 | Some b \<Rightarrow> if b = 0 then 10 else b),
      data = Undefined,
      writeBuffer = None,
      client = net_connect,
      next_ident = 0\<rparr>"

definition disconnect :: "conn \<Rightarrow> conn" where
  "disconnect c = c\<lparr>ready := False, disconnecting := True, client := (client c)\<lparr>ended := True\<rparr>\<rparr>"

subsection \<open>Write buffer\<close>

definition client_write :: "string \<Rightarrow> socket \<Rightarrow> socket" where
  "client_write chunk s = s\<lparr>written := written s @ [chunk]\<rparr>"

text \<open>The loop of \<^verbatim>\<open>flushQueue\<close>: shift the buffer's head and write it, until empty.\<close>

fun flush_loop :: "string list \<Rightarrow> socket \<Rightarrow> socket" where
  "flush_loop [] s = s"
| "flush_loop (chunk # rest) s = flush_loop rest (client_write chunk s)"

definition flushQueue :: "conn \<Rightarrow> conn" where
  "flushQueue c =
     (case writeBuffer c of
        None \<Rightarrow> c
      | Some wb \<Rightarrow>
          if length wb > 0
          then c\<lparr>writeBuffer := Some [], client := flush_loop wb (client c)\<rparr>
          else c)"

definition write_op :: "string \<Rightarrow> conn \<Rightarrow> conn" where
  "write_op str c =
     (let wb = (case writeBuffer c of None \<Rightarrow> [] | Some b \<Rightarrow> b);
          c1 = c\<lparr>writeBuffer := Some wb\<rparr>
      in if ready c1 \<and> length wb > 0
         then c1\<lparr>client := client_write crlf (client_write str (client c1))\<rparr>
         else (let c2 = c1\<lparr>writeBuffer := Some (wb @ [str, crlf])\<rparr>
               in if ready c2 then flushQueue c2 else c2))"

subsection \<open>Reading protocol lines\<close>

text \<open>
  What one call of \<^verbatim>\<open>read\<close> does to the outside: nothing, settle one deferred, or
  throw (\<^verbatim>\<open>deferred\<close> is \<^verbatim>\<open>undefined\<close> when the queue is empty, and
  \<^verbatim>\<open>deferred.resolve\<close> is then a TypeError, thrown before \<^verbatim>\<open>this.data\<close> is cleared).
\<close>

datatype effect = Nothing | Settled deferred outcome | Threw error

definition error_message :: "string \<Rightarrow> string \<Rightarrow> string" where
  "error_message line k = ''Memcache returned an error: '' @ line @ crlf @ ''For key '' @ k"

definition no_deferred :: error where
  "no_deferred = TypeError ''Cannot read property resolve of undefined''"

definition read :: "string \<Rightarrow> conn \<Rightarrow> effect \<times> conn" where
  "read line c =
     (if take 5 line = ''ERROR'' then
        (case queue c of
           [] \<Rightarrow> (Nothing, c)
         | d # q \<Rightarrow> (Settled d (Rejected (Error (error_message line (key d)))),
                     c\<lparr>queue := q, data := Null\<rparr>))
      else if take 5 line = ''VALUE'' then (Nothing, c)
      else if take 3 line = ''END'' then
        (case queue c of
           [] \<Rightarrow> (Threw no_deferred, c)
         | d # q \<Rightarrow> (Settled d (Fulfilled (data c)), c\<lparr>queue := q, data := Null\<rparr>))
      else if take 6 line = ''STORED'' \<or> take 7 line = ''DELETED'' then
        (case queue c of
           [] \<Rightarrow> (Threw no_deferred, c)
         | d # q \<Rightarrow> (Settled d (Fulfilled (Str line)), c\<lparr>queue := q, data := Null\<rparr>))
      else if take 9 line = ''NOT_FOUND'' then
        (case queue c of
           [] \<Rightarrow> (Threw no_deferred, c)
         | d # q \<Rightarrow> (Settled d (Fulfilled (Str line)), c\<lparr>queue := q, data := Null\<rparr>))
      else if line \<noteq> [] then (Nothing, c\<lparr>data := Str line\<rparr>)
      else (Nothing, c))"


subsection \<open>Command API\<close>

definition misc_defer :: "string \<Rightarrow> kind \<Rightarrow> conn \<Rightarrow> deferred \<times> conn" where
  "misc_defer k kd c =
     (\<lparr>key = k, ident = next_ident c, kind = kd\<rparr>, c\<lparr>next_ident := Suc (next_ident c)\<rparr>)"

definition push :: "deferred \<Rightarrow> conn \<Rightarrow> conn" where
  "push d c = c\<lparr>queue := queue c @ [d]\<rparr>"

text \<open>
  \<^verbatim>\<open>new Buffer(val)\<close> is the runtime's constructor, not this file's: the model takes
  it as a parameter, which gives the bytes of the value or the exception it throws.
\<close>

type_synonym buffer_ctor = "jsval \<Rightarrow> error + string"

text \<open>
  \<^verbatim>\<open>set(key, val, ttl)\<close>: the two assertions come first; a failing one throws and
  nothing of the connection has changed. \<^verbatim>\<open>ttl || 0\<close> turns an absent ttl into \<open>0\<close>.
  The deferred is pushed before \<^verbatim>\<open>new Buffer(val)\<close>: when that throws, the deferred
  stays in the queue and nothing is written.
\<close>

definition set_op ::
  "buffer_ctor \<Rightarrow> jsval \<Rightarrow> jsval \<Rightarrow> int option \<Rightarrow> conn \<Rightarrow> (error + deferred) \<times> conn" where
  "set_op new_Buffer k val ttl c =
     (case k of
        Str ks \<Rightarrow>
          if length ks < 250 then
            (let ttl' = (case ttl of None \<Rightarrow> 0 | Some t \<Rightarrow> t);
                 (d, c1) = misc_defer ks KSet c;
                 c2 = push d c1
             in case new_Buffer val of
                  Inl e \<Rightarrow> (Inl e, c2)
                | Inr buf \<Rightarrow>
                    (let c3 = write_op (''set '' @ ks @ '' 0 '' @ show_int ttl' @ '' ''
                                          @ show_nat (length buf)) c2;
                         c4 = write_op buf c3
                     in (Inr d, c4)))
          else (Inl (AssertionError ''Key must be less than 250 characters long''), c)
      | _ \<Rightarrow> (Inl (AssertionError ''Cannot set in memcache with a not string key''), c))"

definition get_op :: "string \<Rightarrow> conn \<Rightarrow> deferred \<times> conn" where
  "get_op k c =
     (let (d, c1) = misc_defer k KGet c;
          c2 = push d c1
      in (d, write_op (''get '' @ k) c2))"

definition delete_op :: "string \<Rightarrow> conn \<Rightarrow> deferred \<times> conn" where
  "delete_op k c =
     (let (d, c1) = misc_defer k KDelete c;
          c2 = push d c1
      in (d, write_op (''delete '' @ k) c2))"

definition autodiscovery :: "conn \<Rightarrow> deferred \<times> conn" where
  "autodiscovery c =
     (let (d, c1) = misc_defer ''autodiscovery'' KAutodiscovery c;
          c2 = push d c1
      in (d, write_op ''config get cluster'' c2))"

subsection \<open>The continuations chained to the deferred's promise\<close>

definition mismatch_message :: "string \<Rightarrow> string" where
  "mismatch_message s = ''Something went wrong with the set. Expected STORED, got :'' @ s @ '':''"

definition set_then :: "jsval \<Rightarrow> outcome" where
  "set_then d =
     (case toString d of
        Inl e \<Rightarrow> Rejected e
      | Inr s \<Rightarrow> if s \<noteq> ''STORED'' then Rejected (Error (mismatch_message s))
                 else Fulfilled Undefined)"

definition get_then :: "jsval \<Rightarrow> outcome" where
  "get_then d =
     (if truthy d then (case toString d of Inl e \<Rightarrow> Rejected e | Inr s \<Rightarrow> Fulfilled (Str s))
      else Fulfilled Null)"

definition delete_then :: "jsval \<Rightarrow> outcome" where
  "delete_then v = (if v = Str ''DELETED'' then Fulfilled (Bool True) else Fulfilled (Bool False))"

definition host_port :: "string \<Rightarrow> string" where
  "host_port h = (let parts = split CHR ''|'' h in fmt_s (index parts 0) @ '':'' @ fmt_s (index parts 2))"

definition autodiscovery_then :: "jsval \<Rightarrow> outcome" where
  "autodiscovery_then d =
     (case toString d of
        Inl e \<Rightarrow> Rejected e
      | Inr s \<Rightarrow> Fulfilled (StrArr (map host_port (split CHR '' '' s))))"

text \<open>
  The promise a command returns, from how its deferred was settled: \<^verbatim>\<open>.then(f)\<close> runs
  \<open>f\<close> on the value of a fulfilled promise and passes a rejection on.
\<close>

fun future :: "kind \<Rightarrow> outcome \<Rightarrow> outcome" where
  "future kd (Rejected e) = Rejected e"
| "future KSet (Fulfilled v) = set_then v"
| "future KGet (Fulfilled v) = get_then v"
| "future KDelete (Fulfilled v) = delete_then v"
| "future KAutodiscovery (Fulfilled v) = autodiscovery_then v"

subsection \<open>Socket events\<close>

text \<open>
  The \<^verbatim>\<open>close\<close> listener, as a function of its receiver \<^verbatim>\<open>this\<close>; the second
  component is the delay it hands to \<^verbatim>\<open>setTimeout\<close>. \<^verbatim>\<open>undefined < 60000\<close> is false.
\<close>

definition on_close :: "receiver \<Rightarrow> receiver \<times> int option" where
  "on_close t =
     (let t1 = t\<lparr>ready_prop := Some False\<rparr>;
          t2 = (case backoff_prop t1 of
                  None \<Rightarrow> t1
                | Some b \<Rightarrow> if b < 60000 then t1\<lparr>backoff_prop := Some (b * 2)\<rparr> else t1)
      in (t2, backoff_prop t2))"

text \<open>The connection, were it the receiver of the listener.\<close>

definition conn_receiver :: "conn \<Rightarrow> receiver" where
  "conn_receiver c = \<lparr>ready_prop = Some (ready c), backoff_prop = Some (backoff c)\<rparr>"

fun closes :: "nat \<Rightarrow> receiver \<Rightarrow> receiver" where
  "closes 0 t = t"
| "closes (Suc n) t = closes n (fst (on_close t))"

text \<open>
  The listener is registered with \<^verbatim>\<open>this.client.on('close', function() {...})\<close>, not
  bound: an emitter calls its listeners with itself as \<^verbatim>\<open>this\<close>, so the receiver is
  the socket. It is registered only when \<open>reconnect\<close> is set.
\<close>

definition close_event :: "conn \<Rightarrow> conn" where
  "close_event c =
     (if reconnect c
      then c\<lparr>client := (client c)\<lparr>props := fst (on_close (props (client c)))\<rparr>\<rparr>
      else c)"

datatype action = Issued deferred | Completed deferred outcome | Raised error

definition do_call :: "buffer_ctor \<Rightarrow> call \<Rightarrow> conn \<Rightarrow> (error + deferred) \<times> conn" where
  "do_call new_Buffer x c =
     (case x of
        CSet k v ttl \<Rightarrow> set_op new_Buffer k v ttl c
      | CGet k \<Rightarrow> (case get_op k c of (d, c1) \<Rightarrow> (Inr d, c1))
      | CDelete k \<Rightarrow> (case delete_op k c of (d, c1) \<Rightarrow> (Inr d, c1))
      | CAutodiscovery \<Rightarrow> (case autodiscovery c of (d, c1) \<Rightarrow> (Inr d, c1)))"

text \<open>
  What a call on connection \<open>c\<close> shows: the deferreds it pushed on the queue, then
  the exception if it threw.
\<close>

definition call_trace :: "conn \<Rightarrow> (error + deferred) \<times> conn \<Rightarrow> action list" where
  "call_trace c rc =
     map Issued (drop (length (queue c)) (queue (snd rc)))
     @ (case fst rc of Inl e \<Rightarrow> [Raised e] | Inr d \<Rightarrow> [])"

text \<open>
  The \<^verbatim>\<open>onConnect\<close> callback: a sequence of calls on the command API; a call that
  throws ends the callback, and the exception leaves the listener that called it.
\<close>

fun callback :: "buffer_ctor \<Rightarrow> call list \<Rightarrow> conn \<Rightarrow> action list \<times> bool \<times> conn" where
  "callback new_Buffer [] c = ([], True, c)"
| "callback new_Buffer (x # xs) c =
     (let rc = do_call new_Buffer x c
      in case fst rc of
           Inl e \<Rightarrow> (call_trace c rc, False, snd rc)
         | Inr d \<Rightarrow> (case callback new_Buffer xs (snd rc) of
                       (tr, ok, c2) \<Rightarrow> (call_trace c rc @ tr, ok, c2)))"

text \<open>The \<^verbatim>\<open>connect\<close> listener, bound to the connection.\<close>

definition on_connect :: "buffer_ctor \<Rightarrow> conn \<Rightarrow> action list \<times> conn" where
  "on_connect new_Buffer c =
     (let c1 = c\<lparr>ready := True, backoff := 10\<rparr>
      in case onConnect c1 of
           None \<Rightarrow> ([], flushQueue c1)
         | Some calls \<Rightarrow>
             (case callback new_Buffer calls c1 of
                (tr, ok, c2) \<Rightarrow> if ok then (tr, flushQueue c2) else (tr, c2)))"

text \<open>
  What happens to a connection, one listener or API call at a time: everything runs
  on one thread. An exception leaves the state as the throwing code left it.
\<close>

datatype event = Call call | Line string | Connect | Close | Disconnect

definition step :: "buffer_ctor \<Rightarrow> event \<Rightarrow> conn \<Rightarrow> action list \<times> conn" where
  "step new_Buffer ev c =
     (case ev of
        Call x \<Rightarrow> (let rc = do_call new_Buffer x c in (call_trace c rc, snd rc))
      | Line l \<Rightarrow> (case read l c of
                     (Nothing, c1) \<Rightarrow> ([], c1)
                   | (Settled d r, c1) \<Rightarrow> ([Completed d r], c1)
                   | (Threw e, c1) \<Rightarrow> ([Raised e], c1))
      | Connect \<Rightarrow> on_connect new_Buffer c
      | Close \<Rightarrow> ([], close_event c)
      | Disconnect \<Rightarrow> ([], disconnect c))"

fun run :: "buffer_ctor \<Rightarrow> event list \<Rightarrow> conn \<Rightarrow> action list \<times> conn" where
  "run new_Buffer [] c = ([], c)"
| "run new_Buffer (ev # evs) c =
     (case step new_Buffer ev c of
        (tr, c1) \<Rightarrow> (case run new_Buffer evs c1 of (tr', c2) \<Rightarrow> (tr @ tr', c2)))"

fun issued :: "action list \<Rightarrow> deferred list" where
  "issued [] = []"
| "issued (Issued d # tr) = d # issued tr"
| "issued (a # tr) = issued tr"

fun completed :: "action list \<Rightarrow> deferred list" where
  "completed [] = []"
| "completed (Completed d r # tr) = d # completed tr"
| "completed (a # tr) = completed tr"

text \<open>
  An instance of the constructor for the concrete runs below, which pass a string or
  \<^verbatim>\<open>undefined\<close> as the value: the bytes of a string, and a TypeError for
  \<^verbatim>\<open>undefined\<close>, \<^verbatim>\<open>null\<close> and booleans. Numbers and arrays, which no run below
  passes, get the TypeError too; the general theorems hold for every constructor.
\<close>

fun string_Buffer :: buffer_ctor where
  "string_Buffer (Str s) = Inr s"
| "string_Buffer v = Inl (TypeError ''First argument must be a string, Buffer, Array or number'')"

definition default_opts :: opts where
  "default_opts = \<lparr>o_host = None, o_port = None, o_reconnect = None, o_onConnect = None,
                    o_backoff = None\<rparr>"

text \<open>A line that \<^verbatim>\<open>read\<close> stores in \<^verbatim>\<open>this.data\<close>: not empty, none of the six prefixes.\<close>

definition is_data_line :: "string \<Rightarrow> bool" where
  "is_data_line l \<longleftrightarrow>
     take 5 l \<noteq> ''ERROR'' \<and> take 5 l \<noteq> ''VALUE'' \<and> take 3 l \<noteq> ''END'' \<and>
     take 6 l \<noteq> ''STORED'' \<and> take 7 l \<noteq> ''DELETED'' \<and> take 9 l \<noteq> ''NOT_FOUND'' \<and> l \<noteq> []"

fun data_ok :: "jsval \<Rightarrow> bool" where
  "data_ok Undefined = True"
| "data_ok Null = True"
| "data_ok (Str s) = is_data_line s"
| "data_ok v = False"


subsection \<open>The payload of autodiscovery\<close>

text \<open>
  The reply to \<^verbatim>\<open>config get cluster\<close>, as the comment in \<^verbatim>\<open>autodiscovery\<close> shows it:
  tokens \<open>hostname|ip|port\<close> separated by single spaces. A field holds neither a
  space nor a bar.
\<close>

definition field :: "string \<Rightarrow> bool" where
  "field s \<longleftrightarrow> CHR '' '' \<notin> set s \<and> CHR ''|'' \<notin> set s"

fun token :: "string \<times> string \<times> string \<Rightarrow> string" where
  "token (h, i, p) = h @ ''|'' @ i @ ''|'' @ p"

definition payload :: "(string \<times> string \<times> string) list \<Rightarrow> string" where
  "payload ts = join '' '' (map token ts)"

fun hostname_port :: "string \<times> string \<times> string \<Rightarrow> string" where
  "hostname_port (h, i, p) = h @ '':'' @ p"

fun fields_ok :: "string \<times> string \<times> string \<Rightarrow> bool" where
  "fields_ok (h, i, p) = (field h \<and> field i \<and> field p)"

section \<open>Auxiliary facts\<close>

lemma take_literal: "take n l = x \<Longrightarrow> \<exists>r. l = x @ r"
  by (metis append_take_drop_id)

lemma flushQueue_frame [simp]:
  "queue (flushQueue c) = queue c" "data (flushQueue c) = data c"
  "next_ident (flushQueue c) = next_ident c" "ready (flushQueue c) = ready c"
  "onConnect (flushQueue c) = onConnect c" "backoff (flushQueue c) = backoff c"
  by (simp_all add: flushQueue_def split: option.splits)

lemma write_op_frame [simp]:
  "queue (write_op s c) = queue c" "data (write_op s c) = data c"
  "next_ident (write_op s c) = next_ident c" "ready (write_op s c) = ready c"
  "onConnect (write_op s c) = onConnect c" "backoff (write_op s c) = backoff c"
  by (simp_all add: write_op_def Let_def split: option.splits)

lemma read_data_line:
  "is_data_line l \<Longrightarrow> read l c = (Nothing, c\<lparr>data := Str l\<rparr>)"
  by (simp add: read_def is_data_line_def)

lemma issued_append [simp]: "issued (a @ b) = issued a @ issued b"
  by (induction a rule: issued.induct) simp_all

lemma completed_append [simp]: "completed (a @ b) = completed a @ completed b"
  by (induction a rule: completed.induct) simp_all

lemma upt_join: "i \<le> j \<Longrightarrow> j \<le> k \<Longrightarrow> [i..<j] @ [j..<k] = [i..<k]"
  by (metis le_Suc_ex upt_add_eq_append)

lemma issued_map_Issued [simp]: "issued (map Issued ds) = ds"
  by (induction ds) simp_all

lemma completed_map_Issued [simp]: "completed (map Issued ds) = []"
  by (induction ds) simp_all

lemma do_call_spec:
  assumes "do_call nb x c = (r, c')"
  shows "data c' = data c \<and> onConnect c' = onConnect c \<and>
         (\<exists>ds. queue c' = queue c @ ds
               \<and> map ident ds = [next_ident c..<next_ident c']
               \<and> next_ident c \<le> next_ident c'
               \<and> (case r of Inl e \<Rightarrow> True | Inr d \<Rightarrow> ds = [d]))"
proof (cases x)
  case (CSet k v ttl)
  show ?thesis
  proof (cases k)
    case (Str ks)
    with assms CSet show ?thesis
      by (cases "nb v")
         (auto simp: do_call_def set_op_def Let_def misc_defer_def push_def upt_conv_Cons
               split: if_splits)
  qed (use assms CSet in \<open>auto simp: do_call_def set_op_def\<close>)
next
  case (CGet k)
  with assms show ?thesis
    by (auto simp: do_call_def get_op_def Let_def misc_defer_def push_def upt_conv_Cons)
next
  case (CDelete k)
  with assms show ?thesis
    by (auto simp: do_call_def delete_op_def Let_def misc_defer_def push_def upt_conv_Cons)
next
  case CAutodiscovery
  with assms show ?thesis
    by (auto simp: do_call_def autodiscovery_def Let_def misc_defer_def push_def upt_conv_Cons)
qed

lemma call_trace_spec:
  assumes "do_call nb x c = (r, c')"
  shows "data c' = data c
       \<and> queue c' = queue c @ issued (call_trace c (r, c'))
       \<and> completed (call_trace c (r, c')) = []
       \<and> map ident (issued (call_trace c (r, c'))) = [next_ident c..<next_ident c']
       \<and> next_ident c \<le> next_ident c'"
proof -
  from do_call_spec [OF assms] obtain ds where
    d: "data c' = data c" "queue c' = queue c @ ds"
       "map ident ds = [next_ident c..<next_ident c']" "next_ident c \<le> next_ident c'"
    by blast
  have i: "issued (call_trace c (r, c')) = ds"
    by (cases r) (simp_all add: call_trace_def d(2))
  have "completed (call_trace c (r, c')) = []"
    by (cases r) (simp_all add: call_trace_def)
  with d i show ?thesis by simp
qed

lemma callback_spec:
  "callback nb xs c = (tr, ok, c') \<Longrightarrow>
     data c' = data c \<and> queue c' = queue c @ issued tr \<and> completed tr = []
     \<and> map ident (issued tr) = [next_ident c..<next_ident c']
     \<and> next_ident c \<le> next_ident c'"
proof (induction xs arbitrary: c tr ok c')
  case Nil
  then show ?case by simp
next
  case (Cons x xs)
  obtain r c1 where dc: "do_call nb x c = (r, c1)"
    by (cases "do_call nb x c")
  note t = call_trace_spec [OF dc]
  show ?case
  proof (cases r)
    case (Inl e)
    with Cons.prems dc have "tr = call_trace c (r, c1)" "c' = c1"
      by (auto simp: Let_def)
    with t show ?thesis by simp
  next
    case (Inr d)
    obtain tr1 ok1 c2 where cb: "callback nb xs c1 = (tr1, ok1, c2)"
      by (cases "callback nb xs c1")
    from Cons.prems dc Inr cb have eq: "tr = call_trace c (r, c1) @ tr1" "c' = c2"
      by (simp_all add: Let_def)
    note h = Cons.IH [OF cb]
    have "queue c' = queue c @ issued tr"
      using t h by (simp add: eq)
    moreover have "map ident (issued tr) = [next_ident c..<next_ident c']"
      using t h by (simp add: eq upt_join)
    ultimately show ?thesis
      using t h by (simp add: eq)
  qed
qed

lemma read_spec:
  assumes "read l c = (r, c')"
  shows "next_ident c' = next_ident c \<and> (data_ok (data c) \<longrightarrow> data_ok (data c')) \<and>
         (case r of
            Settled d v \<Rightarrow> queue c = d # queue c'
          | _ \<Rightarrow> queue c' = queue c)"
  using assms
  by (auto simp: read_def is_data_line_def split: if_splits list.splits)

lemma step_spec:
  assumes "step nb ev c = (tr, c')"
  shows "queue c @ issued tr = completed tr @ queue c'
       \<and> map ident (issued tr) = [next_ident c..<next_ident c']
       \<and> next_ident c \<le> next_ident c'
       \<and> (data_ok (data c) \<longrightarrow> data_ok (data c'))"
proof (cases ev)
  case (Call x)
  obtain r c1 where dc: "do_call nb x c = (r, c1)"
    by (cases "do_call nb x c")
  from assms Call dc have "tr = call_trace c (r, c1)" "c' = c1"
    by (auto simp: step_def Let_def)
  with call_trace_spec [OF dc] show ?thesis
    by simp
next
  case (Line l)
  obtain r c1 where rd: "read l c = (r, c1)"
    by (cases "read l c")
  with assms Line read_spec [OF rd] show ?thesis
    by (cases r) (auto simp: step_def)
next
  case Connect
  show ?thesis
  proof (cases "onConnect c")
    case None
    with assms Connect show ?thesis
      by (auto simp: step_def on_connect_def)
  next
    case (Some calls)
    obtain tr1 ok c2 where cb: "callback nb calls (c\<lparr>ready := True, backoff := 10\<rparr>) = (tr1, ok, c2)"
      by (cases "callback nb calls (c\<lparr>ready := True, backoff := 10\<rparr>)")
    with assms Connect Some callback_spec [OF cb] show ?thesis
      by (auto simp: step_def on_connect_def split: if_splits)
  qed
next
  case Close
  with assms show ?thesis
    by (auto simp: step_def close_event_def)
next
  case Disconnect
  with assms show ?thesis
    by (auto simp: step_def disconnect_def)
qed

lemma run_spec:
  "run nb evs c = (tr, c') \<Longrightarrow>
     queue c @ issued tr = completed tr @ queue c'
     \<and> map ident (issued tr) = [next_ident c..<next_ident c']
     \<and> next_ident c \<le> next_ident c'
     \<and> (data_ok (data c) \<longrightarrow> data_ok (data c'))"
proof (induction evs arbitrary: c tr c')
  case Nil
  then show ?case by simp
next
  case (Cons ev evs)
  obtain tr1 c1 where st: "step nb ev c = (tr1, c1)"
    by (cases "step nb ev c")
  obtain tr2 c2 where rn: "run nb evs c1 = (tr2, c2)"
    by (cases "run nb evs c1")
  from Cons.prems st rn have eq: "tr = tr1 @ tr2" "c' = c2"
    by auto
  note s = step_spec [OF st] and r = Cons.IH [OF rn]
  have q: "queue c @ issued tr = completed tr @ queue c'"
    using s r by (simp add: eq) (metis append.assoc)
  have i: "map ident (issued tr) = [next_ident c..<next_ident c']"
    using s r by (simp add: eq upt_join)
  from q i s r show ?case by (simp add: eq)
qed

lemma reachable_data_ok:
  assumes "run nb evs (Connection os) = (tr, c)"
  shows "data_ok (data c)"
proof -
  have "data_ok (data (Connection os))"
    by (simp add: Connection_def)
  with run_spec [OF assms] show ?thesis by blast
qed

lemma read_settles_head:
  assumes "read line c = (Settled d' r, c')" and "queue c = d # q"
  shows "d' = d \<and> c' = c\<lparr>queue := q, data := Null\<rparr> \<and>
         (if take 5 line = ''ERROR'' then r = Rejected (Error (error_message line (key d)))
          else if take 3 line = ''END'' then r = Fulfilled (data c)
          else r = Fulfilled (Str line) \<and>
               (take 6 line = ''STORED'' \<or> take 7 line = ''DELETED'' \<or> take 9 line = ''NOT_FOUND''))"
  using assms by (auto simp: read_def split: if_splits)

section \<open>The host list of autodiscovery\<close>

lemma split_no_sep: "c \<notin> set s \<Longrightarrow> split c s = [s]"
  by (induction s) auto

lemma split_append: "c \<notin> set s \<Longrightarrow> split c (s @ c # r) = s # split c r"
  by (induction s) auto

lemma host_port_token:
  assumes "fields_ok t"
  shows "host_port (token t) = hostname_port t"
proof -
  obtain h i p where t: "t = (h, i, p)"
    by (cases t)
  from assms have b: "CHR ''|'' \<notin> set h" "CHR ''|'' \<notin> set i" "CHR ''|'' \<notin> set p"
    by (simp_all add: t field_def)
  have "split CHR ''|'' (token t) = [h, i, p]"
    using split_append [OF b(1), of "i @ ''|'' @ p"] split_append [OF b(2), of p]
          split_no_sep [OF b(3)]
    by (simp add: t)
  then show ?thesis
    by (simp add: host_port_def index_def t)
qed

lemma token_no_space: "fields_ok t \<Longrightarrow> CHR '' '' \<notin> set (token t)"
  by (cases t) (auto simp: field_def)

lemma split_join:
  "ws \<noteq> [] \<Longrightarrow> \<forall>w\<in>set ws. c \<notin> set w \<Longrightarrow> split c (join [c] ws) = ws"
proof (induction "[c]" ws rule: join.induct)
  case 1
  then show ?case by simp
next
  case (2 x)
  then show ?case by (simp add: split_no_sep)
next
  case (3 x y ys)
  then show ?case
    using split_append [of c x "join [c] (y # ys)"] by simp
qed

text \<open>
  Claim C1, as the code has it. When the promise of \<^verbatim>\<open>autodiscovery\<close> receives a
  payload of one or more tokens \<open>hostname|ip|port\<close> separated by single spaces, the
  call resolves to the list of the strings \<open>hostname:port\<close>, one per token, in token
  order: the continuation formats fields 0 and 2 of each token, and field 0 is the
  host name, not the address.
\<close>

theorem autodiscovery_hosts:
  assumes "ts \<noteq> []" and "\<forall>t\<in>set ts. fields_ok t"
  shows "future KAutodiscovery (Fulfilled (Str (payload ts)))
         = Fulfilled (StrArr (map hostname_port ts))"
proof -
  have "split CHR '' '' (payload ts) = map token ts"
    unfolding payload_def using assms
    by (intro split_join) (auto simp: token_no_space)
  moreover have "map host_port (map token ts) = map hostname_port ts"
    using assms(2) by (simp add: host_port_token)
  ultimately show ?thesis
    by (simp add: autodiscovery_then_def)
qed

theorem autodiscovery_hosts_witness:
  "[(''h1'', ''10.0.0.1'', ''11211''), (''h2'', ''10.0.0.2'', ''11211'')] \<noteq> []
   \<and> fields_ok (''h1'', ''10.0.0.1'', ''11211'') \<and> fields_ok (''h2'', ''10.0.0.2'', ''11211'')
   \<and> future KAutodiscovery (Fulfilled (Str ''h1|10.0.0.1|11211 h2|10.0.0.2|11211''))
     = Fulfilled (StrArr [''h1:11211'', ''h2:11211''])"
proof -
  have n: "[(''h1'', ''10.0.0.1'', ''11211''), (''h2'', ''10.0.0.2'', ''11211'')] \<noteq> []"
    by simp
  have f: "\<forall>t\<in>set [(''h1'', ''10.0.0.1'', ''11211''), (''h2'', ''10.0.0.2'', ''11211'')]. fields_ok t"
    by (simp add: field_def)
  from autodiscovery_hosts [OF n f] n f show ?thesis
    by (simp add: payload_def)
qed

text \<open>
  On the payload \<open>h1|10.0.0.1|11211 h2|10.0.0.2|11211\<close> the result is not the list
  of \<open>ip:port\<close> strings.
\<close>

theorem autodiscovery_ip_counterexample:
  "future KAutodiscovery (Fulfilled (Str ''h1|10.0.0.1|11211 h2|10.0.0.2|11211''))
     = Fulfilled (StrArr [''h1:11211'', ''h2:11211''])
   \<and> future KAutodiscovery (Fulfilled (Str ''h1|10.0.0.1|11211 h2|10.0.0.2|11211''))
     \<noteq> Fulfilled (StrArr [''10.0.0.1:11211'', ''10.0.0.2:11211''])"
  by (simp add: autodiscovery_then_def host_port_def index_def)

section \<open>Writing while the buffer is not empty\<close>

text \<open>
  Claim C2 fails on the code. With the connection ready and the write buffer not
  empty, \<^verbatim>\<open>write\<close> hands the chunk and its terminator to the socket and leaves the
  buffer as it is, so the chunk overtakes what is buffered. The state arises when the
  \<^verbatim>\<open>onConnect\<close> callback issues a command: \<open>ready\<close> is already set and the flush
  comes after the callback. Here \<^verbatim>\<open>get a\<close> was issued before the connect and
  \<^verbatim>\<open>get b\<close> by the callback, and the socket receives \<^verbatim>\<open>get b\<close> first.
\<close>

theorem write_overtakes_buffer:
  "write_op ''b'' ((Connection default_opts)\<lparr>ready := True, writeBuffer := Some [''a'', crlf]\<rparr>)
     = (Connection default_opts)
         \<lparr>ready := True, writeBuffer := Some [''a'', crlf],
          client := net_connect\<lparr>written := [''b'', crlf]\<rparr>\<rparr>
   \<and> written (client (snd (run string_Buffer [Call (CGet ''a''), Connect]
                      (Connection (default_opts\<lparr>o_onConnect := Some [CGet ''b'']\<rparr>)))))
     = [''get b'', crlf, ''get a'', crlf]"
proof -
  have a: "write_op ''b'' ((Connection default_opts)\<lparr>ready := True, writeBuffer := Some [''a'', crlf]\<rparr>)
     = (Connection default_opts)
         \<lparr>ready := True, writeBuffer := Some [''a'', crlf],
          client := net_connect\<lparr>written := [''b'', crlf]\<rparr>\<rparr>"
    by (simp add: write_op_def Connection_def client_write_def net_connect_def)
  have b: "written (client (snd (run string_Buffer [Call (CGet ''a''), Connect]
                      (Connection (default_opts\<lparr>o_onConnect := Some [CGet ''b'']\<rparr>)))))
     = [''get b'', crlf, ''get a'', crlf]"
    by code_simp
  from a b show ?thesis by blast
qed

section \<open>Ordering of completions\<close>

text \<open>
  Claim C3. Completion handles settle in issue order: after any sequence of API calls,
  inbound lines, connects, closes and disconnects on a new connection, the deferreds
  settled so far are, in order, an initial segment of the deferreds issued (pushed on
  the queue) so far, and no deferred is issued twice. So when \<open>A\<close> was issued before \<open>B\<close> and \<open>B\<close> has
  settled, \<open>A\<close> settled before it.
\<close>

theorem settle_in_issue_order:
  "prefix (completed (fst (run nb evs (Connection os)))) (issued (fst (run nb evs (Connection os))))
   \<and> distinct (map ident (issued (fst (run nb evs (Connection os)))))"
proof -
  obtain tr c' where rn: "run nb evs (Connection os) = (tr, c')"
    by (cases "run nb evs (Connection os)")
  have q: "queue (Connection os) = []" and n: "next_ident (Connection os) = 0"
    by (simp_all add: Connection_def)
  note s = run_spec [OF rn]
  from s have a: "issued tr = completed tr @ queue c'"
    unfolding q by simp
  from s have b: "map ident (issued tr) = [0..<next_ident c']"
    unfolding n by blast
  have "prefix (completed tr) (issued tr)"
    using a by (simp add: prefix_def)
  moreover have "distinct (map ident (issued tr))"
    unfolding b by simp
  ultimately show ?thesis
    by (simp add: rn)
qed

section \<open>Backoff\<close>

lemma run_closes_backoff: "backoff (snd (run nb (replicate n Close) c)) = backoff c"
proof (induction n arbitrary: c)
  case 0
  then show ?case by simp
next
  case (Suc n)
  have "step nb Close c = ([], close_event c)"
    by (simp add: step_def)
  moreover have "backoff (close_event c) = backoff c"
    by (simp add: close_event_def)
  ultimately show ?case
    using Suc [of "close_event c"] by (simp split: prod.splits)
qed

text \<open>
  Claim C4 fails on the code. Were the connection the receiver of the \<^verbatim>\<open>close\<close>
  listener, thirteen closes in a row would take the backoff from 10 to 81920, past
  60000 (the test is \<^verbatim>\<open>backoff < 60000\<close> before doubling, and 40960 passes it), and
  the first delay would be 20, the value after doubling. As the listener is
  registered, its receiver is the socket: the backoff of the connection stays what it
  was through any number of closes, and the delay handed to \<^verbatim>\<open>setTimeout\<close> is
  \<^verbatim>\<open>undefined\<close>.
\<close>

theorem backoff_passes_cap:
  "backoff_prop (closes 13 (conn_receiver (Connection default_opts))) = Some 81920
   \<and> snd (on_close (conn_receiver (Connection default_opts))) = Some 20
   \<and> backoff (snd (run nb (replicate n Close) c)) = backoff c
   \<and> snd (on_close (props (client (Connection default_opts)))) = None"
proof -
  have a: "backoff_prop (closes 13 (conn_receiver (Connection default_opts))) = Some 81920"
    by code_simp
  have b: "snd (on_close (conn_receiver (Connection default_opts))) = Some 20"
    by code_simp
  have e: "snd (on_close (props (client (Connection default_opts)))) = None"
    by code_simp
  from a b e run_closes_backoff [where n = n and c = c and nb = nb] show ?thesis by blast
qed

section \<open>Validation in set\<close>

text \<open>
  Claim C5. \<^verbatim>\<open>set(key, value, ttl)\<close> with a key that is not a string, or a string of
  length at least 250, throws an assertion error at once and leaves the connection as
  it was: nothing is enqueued and nothing is written. With a string key shorter than
  250 no such failure occurs: the deferred is always enqueued, last in the queue, and
  the call returns it whenever \<^verbatim>\<open>new Buffer(val)\<close> returns. The one exception the
  call can still throw is the one of \<^verbatim>\<open>new Buffer(val)\<close> itself, after the enqueue
  and before any write.
\<close>

theorem set_validation:
  "(\<not> is_string k \<or> (\<exists>ks. k = Str ks \<and> 250 \<le> length ks)
      \<longrightarrow> (\<exists>msg. set_op nb k v ttl c = (Inl (AssertionError msg), c)))
   \<and> (\<forall>ks. k = Str ks \<and> length ks < 250
      \<longrightarrow> (\<exists>r c'. set_op nb k v ttl c = (r, c')
            \<and> queue c' = queue c @ [\<lparr>key = ks, ident = next_ident c, kind = KSet\<rparr>]
            \<and> (\<forall>buf. nb v = Inr buf
                  \<longrightarrow> r = Inr \<lparr>key = ks, ident = next_ident c, kind = KSet\<rparr>)
            \<and> (\<forall>e. nb v = Inl e
                  \<longrightarrow> r = Inl e \<and> client c' = client c \<and> writeBuffer c' = writeBuffer c)))"
proof (cases k)
  case (Str ks)
  then show ?thesis
    by (cases "nb v") (auto simp: set_op_def Let_def misc_defer_def push_def)
qed (auto simp: set_op_def)

theorem set_validation_witness:
  "(\<exists>msg. set_op string_Buffer (Num 5) (Str ''v'') None (Connection default_opts)
           = (Inl (AssertionError msg), Connection default_opts))
   \<and> (\<exists>msg. set_op string_Buffer (Str (replicate 250 CHR ''k'')) (Str ''v'') None
                 (Connection default_opts)
           = (Inl (AssertionError msg), Connection default_opts))
   \<and> (\<exists>c'. set_op string_Buffer (Str (replicate 249 CHR ''k'')) (Str ''v'') None
                 (Connection default_opts)
           = (Inr \<lparr>key = replicate 249 CHR ''k'', ident = 0, kind = KSet\<rparr>, c')
         \<and> queue c' = [\<lparr>key = replicate 249 CHR ''k'', ident = 0, kind = KSet\<rparr>])
   \<and> (\<exists>e c'. set_op string_Buffer (Str ''k'') Undefined None (Connection default_opts)
           = (Inl (TypeError e), c')
         \<and> queue c' = [\<lparr>key = ''k'', ident = 0, kind = KSet\<rparr>]
         \<and> client c' = net_connect \<and> writeBuffer c' = None)"
proof -
  have q: "queue (Connection default_opts) = []" "next_ident (Connection default_opts) = 0"
          "client (Connection default_opts) = net_connect"
          "writeBuffer (Connection default_opts) = None"
    by (simp_all add: Connection_def)
  from set_validation [where nb = string_Buffer and k = "Num 5" and v = "Str ''v''"
                         and ttl = None and c = "Connection default_opts"]
       set_validation [where nb = string_Buffer and k = "Str (replicate 250 CHR ''k'')"
                         and v = "Str ''v''" and ttl = None and c = "Connection default_opts"]
       set_validation [where nb = string_Buffer and k = "Str (replicate 249 CHR ''k'')"
                         and v = "Str ''v''" and ttl = None and c = "Connection default_opts"]
       set_validation [where nb = string_Buffer and k = "Str ''k''"
                         and v = Undefined and ttl = None and c = "Connection default_opts"]
  show ?thesis
    unfolding q by auto
qed

section \<open>Completion of set\<close>

lemma data_ok_set_then: "data_ok v \<Longrightarrow> \<exists>e. set_then v = Rejected e"
  by (cases v) (auto simp: set_then_def is_data_line_def)

text \<open>
  Claim C6, as the code has it. When a line completes a pending \<^verbatim>\<open>set\<close> on a
  connection reached from a new one: the future is fulfilled if and only if the line
  equals \<open>STORED\<close>, and rejected for every other line. For another line that starts
  with \<open>STORED\<close>, \<open>DELETED\<close> or \<open>NOT_FOUND\<close> the rejection is the mismatch error
  naming that line; for a line starting with \<open>ERROR\<close> it is the error of the parser,
  carrying the line and the key.
\<close>

theorem set_completion:
  assumes "run nb evs (Connection os) = (tr, c)" and "queue c = d # q" and "kind d = KSet"
      and "read line c = (Settled d' r, c')"
  shows "d' = d
       \<and> ((\<exists>v. future (kind d) r = Fulfilled v) \<longleftrightarrow> line = ''STORED'')
       \<and> (line \<noteq> ''STORED'' \<longrightarrow> (\<exists>e. future (kind d) r = Rejected e))
       \<and> ((take 6 line = ''STORED'' \<or> take 7 line = ''DELETED'' \<or> take 9 line = ''NOT_FOUND'')
            \<and> line \<noteq> ''STORED''
            \<longrightarrow> future (kind d) r = Rejected (Error (mismatch_message line)))
       \<and> (take 5 line = ''ERROR''
            \<longrightarrow> future (kind d) r = Rejected (Error (error_message line (key d))))"
proof -
  note h = read_settles_head [OF assms(4,2)]
  from data_ok_set_then [OF reachable_data_ok [OF assms(1)]]
  obtain e where e: "set_then (data c) = Rejected e" by blast
  show ?thesis
  proof (cases "take 5 line = ''ERROR''")
    case True
    then obtain x where "line = ''ERROR'' @ x"
      using take_literal by blast
    with h assms(3) True show ?thesis by auto
  next
    case False
    note nerr = this
    show ?thesis
    proof (cases "take 3 line = ''END''")
      case True
      then obtain x where "line = ''END'' @ x"
        using take_literal by blast
      with h assms(3) e show ?thesis by auto
    next
      case False
      with h nerr have r: "r = Fulfilled (Str line)" by simp
      show ?thesis
        using h nerr False assms(3) by (auto simp: r set_then_def)
    qed
  qed
qed

theorem set_completion_witness:
  "run string_Buffer [Call (CSet (Str ''k'') (Str ''v'') None)] (Connection default_opts)
     = (fst (run string_Buffer [Call (CSet (Str ''k'') (Str ''v'') None)] (Connection default_opts)),
        snd (run string_Buffer [Call (CSet (Str ''k'') (Str ''v'') None)] (Connection default_opts)))
   \<and> queue (snd (run string_Buffer [Call (CSet (Str ''k'') (Str ''v'') None)] (Connection default_opts)))
     = [\<lparr>key = ''k'', ident = 0, kind = KSet\<rparr>]
   \<and> read ''STORED'' (snd (run string_Buffer [Call (CSet (Str ''k'') (Str ''v'') None)] (Connection default_opts)))
     = (Settled \<lparr>key = ''k'', ident = 0, kind = KSet\<rparr> (Fulfilled (Str ''STORED'')),
        (snd (run string_Buffer [Call (CSet (Str ''k'') (Str ''v'') None)] (Connection default_opts)))
          \<lparr>queue := [], data := Null\<rparr>)
   \<and> (\<exists>v. future KSet (Fulfilled (Str ''STORED'')) = Fulfilled v)
   \<and> read ''NOT_FOUND'' (snd (run string_Buffer [Call (CSet (Str ''k'') (Str ''v'') None)] (Connection default_opts)))
     = (Settled \<lparr>key = ''k'', ident = 0, kind = KSet\<rparr> (Fulfilled (Str ''NOT_FOUND'')),
        (snd (run string_Buffer [Call (CSet (Str ''k'') (Str ''v'') None)] (Connection default_opts)))
          \<lparr>queue := [], data := Null\<rparr>)
   \<and> future KSet (Fulfilled (Str ''NOT_FOUND''))
     = Rejected (Error (mismatch_message ''NOT_FOUND''))"
proof -
  have r: "run string_Buffer [Call (CSet (Str ''k'') (Str ''v'') None)] (Connection default_opts)
     = (fst (run string_Buffer [Call (CSet (Str ''k'') (Str ''v'') None)] (Connection default_opts)),
        snd (run string_Buffer [Call (CSet (Str ''k'') (Str ''v'') None)] (Connection default_opts)))"
    by (rule prod.collapse [symmetric])
  have q: "queue (snd (run string_Buffer [Call (CSet (Str ''k'') (Str ''v'') None)] (Connection default_opts)))
           = \<lparr>key = ''k'', ident = 0, kind = KSet\<rparr> # []"
    by code_simp
  have k: "kind \<lparr>key = ''k'', ident = 0, kind = KSet\<rparr> = KSet"
    by simp
  have s: "read ''STORED'' (snd (run string_Buffer [Call (CSet (Str ''k'') (Str ''v'') None)] (Connection default_opts)))
     = (Settled \<lparr>key = ''k'', ident = 0, kind = KSet\<rparr> (Fulfilled (Str ''STORED'')),
        (snd (run string_Buffer [Call (CSet (Str ''k'') (Str ''v'') None)] (Connection default_opts)))
          \<lparr>queue := [], data := Null\<rparr>)"
    by (simp add: read_def q del: run.simps)
  have n: "read ''NOT_FOUND'' (snd (run string_Buffer [Call (CSet (Str ''k'') (Str ''v'') None)] (Connection default_opts)))
     = (Settled \<lparr>key = ''k'', ident = 0, kind = KSet\<rparr> (Fulfilled (Str ''NOT_FOUND'')),
        (snd (run string_Buffer [Call (CSet (Str ''k'') (Str ''v'') None)] (Connection default_opts)))
          \<lparr>queue := [], data := Null\<rparr>)"
    by (simp add: read_def q del: run.simps)
  from set_completion [OF r q k s] set_completion [OF r q k n] r q s n
  show ?thesis by (simp del: run.simps)
qed

text \<open>
  A pending \<^verbatim>\<open>set\<close> completed by the terminal line \<open>END\<close> is not rejected with a
  mismatch error naming \<open>END\<close>: after a data line \<open>foo\<close> the error names \<open>foo\<close>, and
  with no data line it is a TypeError.
\<close>

theorem set_end_counterexample:
  "fst (run string_Buffer [Call (CSet (Str ''k'') (Str ''v'') None), Line ''foo'', Line ''END'']
            (Connection default_opts))
     = [Issued \<lparr>key = ''k'', ident = 0, kind = KSet\<rparr>,
        Completed \<lparr>key = ''k'', ident = 0, kind = KSet\<rparr> (Fulfilled (Str ''foo''))]
   \<and> future KSet (Fulfilled (Str ''foo'')) = Rejected (Error (mismatch_message ''foo''))
   \<and> future KSet (Fulfilled (Str ''foo'')) \<noteq> Rejected (Error (mismatch_message ''END''))
   \<and> fst (run string_Buffer [Call (CSet (Str ''k'') (Str ''v'') None), Line ''END''] (Connection default_opts))
     = [Issued \<lparr>key = ''k'', ident = 0, kind = KSet\<rparr>,
        Completed \<lparr>key = ''k'', ident = 0, kind = KSet\<rparr> (Fulfilled Undefined)]
   \<and> future KSet (Fulfilled Undefined)
     = Rejected (TypeError ''Cannot read property toString of undefined'')"
proof -
  have a: "fst (run string_Buffer [Call (CSet (Str ''k'') (Str ''v'') None), Line ''foo'', Line ''END'']
            (Connection default_opts))
     = [Issued \<lparr>key = ''k'', ident = 0, kind = KSet\<rparr>,
        Completed \<lparr>key = ''k'', ident = 0, kind = KSet\<rparr> (Fulfilled (Str ''foo''))]"
    by code_simp
  have b: "fst (run string_Buffer [Call (CSet (Str ''k'') (Str ''v'') None), Line ''END''] (Connection default_opts))
     = [Issued \<lparr>key = ''k'', ident = 0, kind = KSet\<rparr>,
        Completed \<lparr>key = ''k'', ident = 0, kind = KSet\<rparr> (Fulfilled Undefined)]"
    by code_simp
  show ?thesis
    unfolding a b by (simp add: set_then_def mismatch_message_def)
qed

section \<open>get and the END line\<close>

text \<open>
  Claim C7. When a line starting with \<open>END\<close> completes a pending \<^verbatim>\<open>get\<close>: with a
  data line held in \<^verbatim>\<open>this.data\<close> the future is fulfilled with that line as text;
  with none (\<^verbatim>\<open>undefined\<close> or \<^verbatim>\<open>null\<close>) it is fulfilled with \<^verbatim>\<open>null\<close>, not
  rejected. The deferred is popped and \<^verbatim>\<open>this.data\<close> cleared.
\<close>

theorem get_end:
  assumes "take 3 line = ''END''" and "queue c = d # q" and "kind d = KGet"
  shows "\<exists>r. read line c = (Settled d r, c\<lparr>queue := q, data := Null\<rparr>)
           \<and> (\<forall>s. data c = Str s \<and> s \<noteq> [] \<longrightarrow> future (kind d) r = Fulfilled (Str s))
           \<and> (data c = Undefined \<or> data c = Null \<longrightarrow> future (kind d) r = Fulfilled Null)"
proof -
  obtain r where l: "line = ''END'' @ r"
    using take_literal [OF assms(1)] by blast
  show ?thesis
    using assms(2,3) by (auto simp: l read_def get_then_def)
qed

theorem get_end_witness:
  "take 3 ''END'' = ''END''
   \<and> (\<exists>r. read ''END'' (snd (run string_Buffer [Call (CGet ''k''), Line ''VALUE k 0 1'', Line ''v'']
                                  (Connection default_opts)))
            = (Settled \<lparr>key = ''k'', ident = 0, kind = KGet\<rparr> r,
               (snd (run string_Buffer [Call (CGet ''k''), Line ''VALUE k 0 1'', Line ''v'']
                         (Connection default_opts)))\<lparr>queue := [], data := Null\<rparr>)
          \<and> future KGet r = Fulfilled (Str ''v''))
   \<and> (\<exists>r. read ''END'' (snd (run string_Buffer [Call (CGet ''missing'')] (Connection default_opts)))
            = (Settled \<lparr>key = ''missing'', ident = 0, kind = KGet\<rparr> r,
               (snd (run string_Buffer [Call (CGet ''missing'')] (Connection default_opts)))
                 \<lparr>queue := [], data := Null\<rparr>)
          \<and> future KGet r = Fulfilled Null)"
proof -
  have h: "take 3 ''END'' = ''END''"
    by simp
  have q1: "queue (snd (run string_Buffer [Call (CGet ''k''), Line ''VALUE k 0 1'', Line ''v'']
                            (Connection default_opts)))
            = \<lparr>key = ''k'', ident = 0, kind = KGet\<rparr> # []"
    by code_simp
  have d1: "data (snd (run string_Buffer [Call (CGet ''k''), Line ''VALUE k 0 1'', Line ''v'']
                           (Connection default_opts))) = Str ''v''"
    by code_simp
  have q2: "queue (snd (run string_Buffer [Call (CGet ''missing'')] (Connection default_opts)))
            = \<lparr>key = ''missing'', ident = 0, kind = KGet\<rparr> # []"
    by code_simp
  have d2: "data (snd (run string_Buffer [Call (CGet ''missing'')] (Connection default_opts))) = Undefined"
    by code_simp
  have k: "kind \<lparr>key = ''k'', ident = 0, kind = KGet\<rparr> = KGet"
          "kind \<lparr>key = ''missing'', ident = 0, kind = KGet\<rparr> = KGet"
    by simp_all
  from get_end [OF h q1 k(1)] d1 get_end [OF h q2 k(2)] d2 h
  show ?thesis by auto
qed

section \<open>Completion of delete\<close>

lemma data_ok_delete_then: "data_ok v \<Longrightarrow> delete_then v = Fulfilled (Bool False)"
  by (cases v) (auto simp: delete_then_def is_data_line_def)

text \<open>
  Claim C8, as the code has it. When a line completes a pending \<^verbatim>\<open>delete\<close> on a
  connection reached from a new one: unless the line starts with \<open>ERROR\<close>, the future
  is fulfilled with \<^verbatim>\<open>true\<close> if the line equals \<open>DELETED\<close> and with \<^verbatim>\<open>false\<close>
  otherwise, \<open>NOT_FOUND\<close> included; a line starting with \<open>ERROR\<close> rejects it with
  the error carrying the line and the key.
\<close>

theorem delete_completion:
  assumes "run nb evs (Connection os) = (tr, c)" and "queue c = d # q" and "kind d = KDelete"
      and "read line c = (Settled d' r, c')"
  shows "d' = d
       \<and> (take 5 line \<noteq> ''ERROR''
            \<longrightarrow> future (kind d) r = Fulfilled (Bool (line = ''DELETED'')))
       \<and> (take 5 line = ''ERROR''
            \<longrightarrow> future (kind d) r = Rejected (Error (error_message line (key d))))"
proof -
  note h = read_settles_head [OF assms(4,2)]
  note f = data_ok_delete_then [OF reachable_data_ok [OF assms(1)]]
  show ?thesis
  proof (cases "take 5 line = ''ERROR''")
    case True
    with h assms(3) show ?thesis by auto
  next
    case False
    note nerr = this
    show ?thesis
    proof (cases "take 3 line = ''END''")
      case True
      then obtain x where "line = ''END'' @ x"
        using take_literal by blast
      with h assms(3) f show ?thesis by auto
    next
      case False
      with h nerr have r: "r = Fulfilled (Str line)" by simp
      show ?thesis
        using h nerr False assms(3) by (auto simp: r delete_then_def)
    qed
  qed
qed

theorem delete_completion_witness:
  "run string_Buffer [Call (CDelete ''k'')] (Connection default_opts)
     = (fst (run string_Buffer [Call (CDelete ''k'')] (Connection default_opts)),
        snd (run string_Buffer [Call (CDelete ''k'')] (Connection default_opts)))
   \<and> queue (snd (run string_Buffer [Call (CDelete ''k'')] (Connection default_opts)))
     = [\<lparr>key = ''k'', ident = 0, kind = KDelete\<rparr>]
   \<and> read ''DELETED'' (snd (run string_Buffer [Call (CDelete ''k'')] (Connection default_opts)))
     = (Settled \<lparr>key = ''k'', ident = 0, kind = KDelete\<rparr> (Fulfilled (Str ''DELETED'')),
        (snd (run string_Buffer [Call (CDelete ''k'')] (Connection default_opts)))\<lparr>queue := [], data := Null\<rparr>)
   \<and> future KDelete (Fulfilled (Str ''DELETED'')) = Fulfilled (Bool True)
   \<and> read ''NOT_FOUND'' (snd (run string_Buffer [Call (CDelete ''k'')] (Connection default_opts)))
     = (Settled \<lparr>key = ''k'', ident = 0, kind = KDelete\<rparr> (Fulfilled (Str ''NOT_FOUND'')),
        (snd (run string_Buffer [Call (CDelete ''k'')] (Connection default_opts)))\<lparr>queue := [], data := Null\<rparr>)
   \<and> future KDelete (Fulfilled (Str ''NOT_FOUND'')) = Fulfilled (Bool False)
   \<and> read ''ERROR'' (snd (run string_Buffer [Call (CDelete ''k'')] (Connection default_opts)))
     = (Settled \<lparr>key = ''k'', ident = 0, kind = KDelete\<rparr>
          (Rejected (Error (error_message ''ERROR'' ''k''))),
        (snd (run string_Buffer [Call (CDelete ''k'')] (Connection default_opts)))\<lparr>queue := [], data := Null\<rparr>)
   \<and> future KDelete (Rejected (Error (error_message ''ERROR'' ''k'')))
     = Rejected (Error (error_message ''ERROR'' ''k''))"
proof -
  have r: "run string_Buffer [Call (CDelete ''k'')] (Connection default_opts)
     = (fst (run string_Buffer [Call (CDelete ''k'')] (Connection default_opts)),
        snd (run string_Buffer [Call (CDelete ''k'')] (Connection default_opts)))"
    by (rule prod.collapse [symmetric])
  have q: "queue (snd (run string_Buffer [Call (CDelete ''k'')] (Connection default_opts)))
           = \<lparr>key = ''k'', ident = 0, kind = KDelete\<rparr> # []"
    by code_simp
  have k: "kind \<lparr>key = ''k'', ident = 0, kind = KDelete\<rparr> = KDelete"
    by simp
  have d: "read ''DELETED'' (snd (run string_Buffer [Call (CDelete ''k'')] (Connection default_opts)))
     = (Settled \<lparr>key = ''k'', ident = 0, kind = KDelete\<rparr> (Fulfilled (Str ''DELETED'')),
        (snd (run string_Buffer [Call (CDelete ''k'')] (Connection default_opts)))\<lparr>queue := [], data := Null\<rparr>)"
    by (simp add: read_def q del: run.simps)
  have n: "read ''NOT_FOUND'' (snd (run string_Buffer [Call (CDelete ''k'')] (Connection default_opts)))
     = (Settled \<lparr>key = ''k'', ident = 0, kind = KDelete\<rparr> (Fulfilled (Str ''NOT_FOUND'')),
        (snd (run string_Buffer [Call (CDelete ''k'')] (Connection default_opts)))\<lparr>queue := [], data := Null\<rparr>)"
    by (simp add: read_def q del: run.simps)
  have e: "read ''ERROR'' (snd (run string_Buffer [Call (CDelete ''k'')] (Connection default_opts)))
     = (Settled \<lparr>key = ''k'', ident = 0, kind = KDelete\<rparr>
          (Rejected (Error (error_message ''ERROR'' ''k''))),
        (snd (run string_Buffer [Call (CDelete ''k'')] (Connection default_opts)))\<lparr>queue := [], data := Null\<rparr>)"
    by (simp add: read_def q del: run.simps)
  from delete_completion [OF r q k d] delete_completion [OF r q k n]
       delete_completion [OF r q k e] r q d n e
  show ?thesis by (simp del: run.simps)
qed

text \<open>
  A pending \<^verbatim>\<open>delete\<close> completed by the terminal line \<open>ERROR\<close> is rejected, not
  fulfilled with \<^verbatim>\<open>false\<close>.
\<close>

theorem delete_error_counterexample:
  "fst (run string_Buffer [Call (CDelete ''k''), Line ''ERROR''] (Connection default_opts))
     = [Issued \<lparr>key = ''k'', ident = 0, kind = KDelete\<rparr>,
        Completed \<lparr>key = ''k'', ident = 0, kind = KDelete\<rparr>
          (Rejected (Error (error_message ''ERROR'' ''k'')))]
   \<and> future KDelete (Rejected (Error (error_message ''ERROR'' ''k'')))
     \<noteq> Fulfilled (Bool False)"
proof -
  have a: "fst (run string_Buffer [Call (CDelete ''k''), Line ''ERROR''] (Connection default_opts))
     = [Issued \<lparr>key = ''k'', ident = 0, kind = KDelete\<rparr>,
        Completed \<lparr>key = ''k'', ident = 0, kind = KDelete\<rparr>
          (Rejected (Error (error_message ''ERROR'' ''k'')))]"
    by code_simp
  show ?thesis
    unfolding a by simp
qed

section \<open>ERROR lines\<close>

text \<open>
  Claim C9. On a line starting with \<open>ERROR\<close>: with a non-empty queue exactly the head
  is popped and rejected with an error whose message is
  \<^verbatim>\<open>Memcache returned an error: \<close>, the raw line, a line break, \<^verbatim>\<open>For key \<close> and the
  head's key; \<^verbatim>\<open>this.data\<close> is cleared, and the rest of the queue stays as it is.
  With an empty queue the line is ignored and nothing is settled.
\<close>

theorem read_error_line:
  assumes "take 5 line = ''ERROR''"
  shows "(queue c = d # q \<longrightarrow>
            read line c
            = (Settled d (Rejected (Error (''Memcache returned an error: '' @ line
                                            @ [CHR 0x0D, CHR 0x0A] @ ''For key '' @ key d))),
               c\<lparr>queue := q, data := Null\<rparr>))
       \<and> (queue c = [] \<longrightarrow> read line c = (Nothing, c))"
  using assms by (simp add: read_def error_message_def crlf_def)

theorem read_error_line_witness:
  "take 5 ''ERROR 42'' = ''ERROR''
   \<and> read ''ERROR 42''
        (snd (run string_Buffer [Call (CGet ''a''), Call (CDelete ''b'')]
                  (Connection default_opts)))
     = (Settled \<lparr>key = ''a'', ident = 0, kind = KGet\<rparr>
          (Rejected (Error (''Memcache returned an error: ERROR 42''
                            @ [CHR 0x0D, CHR 0x0A] @ ''For key a''))),
        (snd (run string_Buffer [Call (CGet ''a''), Call (CDelete ''b'')]
                  (Connection default_opts)))
          \<lparr>queue := [\<lparr>key = ''b'', ident = 1, kind = KDelete\<rparr>], data := Null\<rparr>)
   \<and> read ''ERROR 42'' (Connection default_opts) = (Nothing, Connection default_opts)"
proof -
  have h: "take 5 ''ERROR 42'' = ''ERROR''"
    by simp
  have q: "queue (snd (run string_Buffer [Call (CGet ''a''), Call (CDelete ''b'')]
                           (Connection default_opts)))
           = \<lparr>key = ''a'', ident = 0, kind = KGet\<rparr> # [\<lparr>key = ''b'', ident = 1, kind = KDelete\<rparr>]"
    by code_simp
  have e: "queue (Connection default_opts) = []"
    by (simp add: Connection_def)
  from read_error_line [OF h, where d = "\<lparr>key = ''a'', ident = 0, kind = KGet\<rparr>"
                          and q = "[\<lparr>key = ''b'', ident = 1, kind = KDelete\<rparr>]"
                          and c = "snd (run string_Buffer [Call (CGet ''a''), Call (CDelete ''b'')]
                                            (Connection default_opts))"] q
       read_error_line [OF h, where c = "Connection default_opts"] e h
  show ?thesis by (simp del: run.simps)
qed

section \<open>get of an empty value\<close>

text \<open>
  Claim C10. A reply with an empty data line (\<open>VALUE ...\<close>, the empty line, \<open>END\<close>)
  is indistinguishable from the reply \<open>END\<close> of a missing key: both leave the same
  trace and the same connection; and with no value accumulated before, the pending
  \<^verbatim>\<open>get\<close> is fulfilled with \<^verbatim>\<open>null\<close>.
\<close>

theorem get_empty_value:
  assumes "take 5 v = ''VALUE''" and "take 3 e = ''END''"
  shows "run nb [Line v, Line [], Line e] c = run nb [Line e] c
       \<and> (queue c = d # q \<and> kind d = KGet \<and> (data c = Undefined \<or> data c = Null)
            \<longrightarrow> (\<exists>r. fst (run nb [Line v, Line [], Line e] c) = [Completed d r]
                      \<and> future (kind d) r = Fulfilled Null))"
proof -
  obtain r where l: "e = ''END'' @ r"
    using take_literal [OF assms(2)] by blast
  have v: "step nb (Line v) c = ([], c)"
    using assms(1) by (simp add: step_def read_def)
  have e: "step nb (Line []) c = ([], c)"
    by (simp add: step_def read_def)
  have same: "run nb [Line v, Line [], Line e] c = run nb [Line e] c"
    by (simp add: v e)
  have "queue c = d # q \<Longrightarrow> kind d = KGet \<Longrightarrow> data c = Undefined \<or> data c = Null \<Longrightarrow>
        fst (run nb [Line e] c) = [Completed d (Fulfilled (data c))]
        \<and> future (kind d) (Fulfilled (data c)) = Fulfilled Null"
    by (auto simp: step_def l read_def get_then_def)
  with same show ?thesis by auto
qed

theorem get_empty_value_witness:
  "take 5 ''VALUE k 0 0'' = ''VALUE'' \<and> take 3 ''END'' = ''END''
   \<and> run string_Buffer [Line ''VALUE k 0 0'', Line [], Line ''END'']
          (snd (run string_Buffer [Call (CGet ''k'')] (Connection default_opts)))
     = run string_Buffer [Line ''END''] (snd (run string_Buffer [Call (CGet ''k'')] (Connection default_opts)))
   \<and> (\<exists>r. fst (run string_Buffer [Line ''VALUE k 0 0'', Line [], Line ''END'']
                    (snd (run string_Buffer [Call (CGet ''k'')] (Connection default_opts))))
            = [Completed \<lparr>key = ''k'', ident = 0, kind = KGet\<rparr> r]
          \<and> future KGet r = Fulfilled Null)"
proof -
  have h: "take 5 ''VALUE k 0 0'' = ''VALUE''" "take 3 ''END'' = ''END''"
    by simp_all
  have q: "queue (snd (run string_Buffer [Call (CGet ''k'')] (Connection default_opts)))
           = \<lparr>key = ''k'', ident = 0, kind = KGet\<rparr> # []"
    by code_simp
  have d: "data (snd (run string_Buffer [Call (CGet ''k'')] (Connection default_opts))) = Undefined"
    by code_simp
  from get_empty_value [OF h, where nb = string_Buffer
                          and c = "snd (run string_Buffer [Call (CGet ''k'')] (Connection default_opts))"
                          and d = "\<lparr>key = ''k'', ident = 0, kind = KGet\<rparr>" and q = "[]"] q d h
  show ?thesis by (auto simp del: run.simps)
qed

end
